theory Spec2Isabelle
  imports Complex_Main
begin

section \<open>Data model\<close>

text \<open>
  The four middleware classes of \<^verbatim>\<open>chats/middleware.py\<close> and the order in which
  \<^verbatim>\<open>settings.py\<close> chains them, as a shallow embedding. Time is an instant in seconds
  (a rational: \<^verbatim>\<open>datetime\<close> has microsecond resolution), \<^verbatim>\<open>timedelta(seconds=n)\<close> is the
  number \<open>n\<close>. Strings are lists of characters with code points below 256.
\<close>

type_synonym instant = rat

text \<open>The attributes of \<^verbatim>\<open>request.user\<close> that the middleware reads. \<open>groups\<close> holds the
  names of the user's groups, so that
  \<^verbatim>\<open>user.groups.filter(name__in=[...]).exists()\<close> is a test on this list.\<close>

record user =
  is_authenticated :: bool
  username :: string
  is_superuser :: bool
  groups :: "string list"

text \<open>\<open>user\<close> is the value of \<^verbatim>\<open>getattr(request, "user", None)\<close>: \<open>None\<close> when the
  attribute is missing. A user object is truthy.\<close>

record request =
  req_method :: string
  path :: string
  META :: "string \<rightharpoonup> string"
  user :: "user option"

record response =
  status_code :: nat
  content :: string

definition HttpResponseForbidden :: "string \<Rightarrow> response" where
  "HttpResponseForbidden body = \<lparr>status_code = 403, content = body\<rparr>"

text \<open>The dictionary \<^verbatim>\<open>{"count": ..., "reset_at": ...}\<close> kept per client.\<close>

record bucket =
  count :: int
  reset_at :: instant

datatype exn = Exception string

datatype 'a outcome = Raised exn | Returned 'a

text \<open>
  What a request can touch: the cache, the sink of the logger \<^verbatim>\<open>request_logger\<close>, and the
  system clock. The clock is the sequence of its successive readings; \<open>ticks\<close> counts the
  readings taken so far.
\<close>

record 'c world =
  cache :: 'c
  log_sink :: "string list"
  clock :: "nat \<Rightarrow> instant"
  ticks :: nat

definition timezone_now :: "'c world \<Rightarrow> instant \<times> 'c world" where
  "timezone_now w = (clock w (ticks w), w\<lparr>ticks := Suc (ticks w)\<rparr>)"

text \<open>A middleware and its \<^verbatim>\<open>get_response\<close> have the same type.\<close>

type_synonym 'c handler = "request \<Rightarrow> 'c world \<Rightarrow> response outcome \<times> 'c world"

section \<open>Strings\<close>

definition startswith :: "string \<Rightarrow> string \<Rightarrow> bool" where
  "startswith s p = (take (length p) s = p)"

text \<open>The characters \<^verbatim>\<open>str.strip()\<close> removes, among the code points below 256.\<close>

definition isspace :: "char \<Rightarrow> bool" where
  "isspace c = ((of_char c :: nat) \<in> {9, 10, 11, 12, 13, 28, 29, 30, 31, 32, 133, 160})"

definition strip :: "string \<Rightarrow> string" where
  "strip s = rev (dropWhile isspace (rev (dropWhile isspace s)))"

text \<open>\<^verbatim>\<open>s.split(",")[0]\<close>: the part of \<open>s\<close> before its first comma.\<close>

definition split_comma_first :: "string \<Rightarrow> string" where
  "split_comma_first s = takeWhile (\<lambda>c. c \<noteq> CHR '','') s"

definition get_client_ip :: "request \<Rightarrow> string" where
  "get_client_ip request =
     (case META request ''HTTP_X_FORWARDED_FOR'' of
        Some xff \<Rightarrow>
          if xff \<noteq> [] then strip (split_comma_first xff)
          else (case META request ''REMOTE_ADDR'' of Some a \<Rightarrow> a | None \<Rightarrow> ''0.0.0.0'')
      | None \<Rightarrow> (case META request ''REMOTE_ADDR'' of Some a \<Rightarrow> a | None \<Rightarrow> ''0.0.0.0''))"

section \<open>Calendar and \<^verbatim>\<open>strftime\<close>\<close>

record datetime =
  year :: nat
  month :: nat
  day :: nat
  hour :: nat
  minute :: nat
  second :: nat

text \<open>
  The conversion of an instant to calendar fields belongs to the \<^verbatim>\<open>datetime\<close> library
  and the configured time zone: \<open>now_fields\<close> gives the fields of \<^verbatim>\<open>timezone.now()\<close>,
  \<open>localtime_fields\<close> those of \<^verbatim>\<open>timezone.localtime()\<close>. Both are parameters.
\<close>

record calendar =
  now_fields :: "instant \<Rightarrow> datetime"
  localtime_fields :: "instant \<Rightarrow> datetime"

definition digit_char :: "nat \<Rightarrow> char" where
  "digit_char d = char_of (48 + d)"

fun dec :: "nat \<Rightarrow> string" where
  "dec n = (if n < 10 then [digit_char n] else dec (n div 10) @ [digit_char (n mod 10)])"

declare dec.simps [simp del]

definition zfill :: "nat \<Rightarrow> string \<Rightarrow> string" where
  "zfill w s = replicate (w - length s) (CHR ''0'') @ s"

text \<open>\<^verbatim>\<open>strftime("%Y-%m-%d %H:%M:%S")\<close>, with \<^verbatim>\<open>%Y\<close> padded to four digits.\<close>

definition strftime :: "datetime \<Rightarrow> string" where
  "strftime d =
     zfill 4 (dec (year d)) @ ''-'' @ zfill 2 (dec (month d)) @ ''-'' @ zfill 2 (dec (day d))
     @ '' '' @ zfill 2 (dec (hour d)) @ '':'' @ zfill 2 (dec (minute d)) @ '':''
     @ zfill 2 (dec (second d))"

section \<open>The cache\<close>

text \<open>
  \<^verbatim>\<open>django.core.cache.cache\<close> is whichever backend the deployment configures. A backend
  is its two operations; each reads the system clock once (the instant it is given) and
  may raise.
\<close>

record 'c cache_ops =
  backend_get :: "instant \<Rightarrow> string \<Rightarrow> bucket \<Rightarrow> 'c \<Rightarrow> bucket outcome \<times> 'c"
  backend_set :: "instant \<Rightarrow> string \<Rightarrow> bucket \<Rightarrow> rat \<Rightarrow> 'c \<Rightarrow> unit outcome \<times> 'c"

definition cache_get :: "'c cache_ops \<Rightarrow> string \<Rightarrow> bucket \<Rightarrow> 'c world \<Rightarrow> bucket outcome \<times> 'c world" where
  "cache_get ops key dflt w =
     (let (t, w1) = timezone_now w;
          (r, c) = backend_get ops t key dflt (cache w1)
      in (r, w1\<lparr>cache := c\<rparr>))"

definition cache_set :: "'c cache_ops \<Rightarrow> string \<Rightarrow> bucket \<Rightarrow> rat \<Rightarrow> 'c world \<Rightarrow> unit outcome \<times> 'c world" where
  "cache_set ops key b timeout w =
     (let (t, w1) = timezone_now w;
          (r, c) = backend_set ops t key b timeout (cache w1)
      in (r, w1\<lparr>cache := c\<rparr>))"

text \<open>
  The local-memory backend, the default when \<^verbatim>\<open>settings.py\<close> names none. Its ordered
  dictionary of pickled values and its dictionary of expiry instants have the same keys;
  they are one list here, of keys with value and expiry, no key twice, in the order of the
  dictionary: a key that is read or written moves to the front, and culling pops from the
  back. The options are the defaults, since \<^verbatim>\<open>settings.py\<close> sets none.
\<close>

type_synonym locmem = "(string \<times> bucket \<times> instant) list"

definition MAX_ENTRIES :: nat where "MAX_ENTRIES = 300"
definition CULL_FREQUENCY :: nat where "CULL_FREQUENCY = 3"

text \<open>The value and expiry stored under a key, if any.\<close>

definition entry :: "locmem \<Rightarrow> string \<rightharpoonup> bucket \<times> instant" where
  "entry c key = map_of c key"

text \<open>\<^verbatim>\<open>_delete\<close>: the key leaves both dictionaries.\<close>

definition delete_key :: "string \<Rightarrow> locmem \<Rightarrow> locmem" where
  "delete_key key c = filter (\<lambda>(k, x). k \<noteq> key) c"

text \<open>\<^verbatim>\<open>_cull\<close>: \<^verbatim>\<open>len // cull_frequency\<close> entries are popped from the back.\<close>

definition cull :: "locmem \<Rightarrow> locmem" where
  "cull c =
     (if CULL_FREQUENCY = 0 then []
      else take (length c - length c div CULL_FREQUENCY) c)"

text \<open>
  \<^verbatim>\<open>get\<close>: a key that is missing, or whose expiry is not after the current instant, is
  deleted and the default is answered; otherwise the key moves to the front and its value
  is answered.
\<close>

definition locmem_get :: "instant \<Rightarrow> string \<Rightarrow> bucket \<Rightarrow> locmem \<Rightarrow> bucket outcome \<times> locmem" where
  "locmem_get t key dflt c =
     (case entry c key of
        None \<Rightarrow> (Returned dflt, delete_key key c)
      | Some (v, expiry) \<Rightarrow>
          if expiry \<le> t then (Returned dflt, delete_key key c)
          else (Returned v, (key, v, expiry) # delete_key key c))"

text \<open>
  \<^verbatim>\<open>set\<close>: when the cache holds \<^verbatim>\<open>MAX_ENTRIES\<close> keys or more it is culled first; then the
  value is stored under the key, the key moves to the front, and the entry expires
  \<open>timeout\<close> after the current instant.
\<close>

definition locmem_set :: "instant \<Rightarrow> string \<Rightarrow> bucket \<Rightarrow> rat \<Rightarrow> locmem \<Rightarrow> unit outcome \<times> locmem" where
  "locmem_set t key b timeout c =
     (let c1 = (if length c \<ge> MAX_ENTRIES then cull c else c)
      in (Returned (), (key, b, t + timeout) # delete_key key c1))"

definition LocMemCache :: "locmem cache_ops" where
  "LocMemCache = \<lparr>backend_get = locmem_get, backend_set = locmem_set\<rparr>"

section \<open>The middleware\<close>

subsection \<open>\<^verbatim>\<open>RequestLoggingMiddleware\<close>\<close>

definition RequestLogging_call :: "calendar \<Rightarrow> 'c handler \<Rightarrow> 'c handler" where
  "RequestLogging_call cal get_response request w =
     (let usr = (case user request of
                   Some u \<Rightarrow> if is_authenticated u then username u else ''anonymous''
                 | None \<Rightarrow> ''anonymous'');
          (t, w1) = timezone_now w;
          ts = strftime (now_fields cal t);
          w2 = w1\<lparr>log_sink := log_sink w1 @ [ts @ '' - User: '' @ usr @ '' - Path: '' @ path request]\<rparr>
      in get_response request w2)"

subsection \<open>\<^verbatim>\<open>RestrictAccessByTimeMiddleware\<close>\<close>

definition START_HOUR :: nat where "START_HOUR = 6"
definition END_HOUR :: nat where "END_HOUR = 21"

text \<open>Line 51, the value of the variable \<^verbatim>\<open>allowed\<close> for the hour read at line 50.\<close>

definition allowed :: "nat \<Rightarrow> bool" where
  "allowed h = (START_HOUR \<le> h \<and> h < END_HOUR)"

definition RestrictAccessByTime_call :: "calendar \<Rightarrow> 'c handler \<Rightarrow> 'c handler" where
  "RestrictAccessByTime_call cal get_response request w =
     (let (now, w1) = timezone_now w;
          h = hour (localtime_fields cal now)
      in if \<not> allowed h
         then (Returned (HttpResponseForbidden ''Chat is closed. Please come back during allowed hours.''), w1)
         else get_response request w1)"

subsection \<open>\<^verbatim>\<open>OffensiveLanguageMiddleware\<close>\<close>

definition WINDOW_SECONDS :: rat where "WINDOW_SECONDS = 60"
definition MAX_MESSAGES :: int where "MAX_MESSAGES = 5"
definition SCOPE_PREFIX :: string where "SCOPE_PREFIX = ''chat_rate_''"

text \<open>
  Lines 74 to 86, the body of the \<^verbatim>\<open>if\<close>: \<open>Returned (Some r)\<close> when line 85 returns the
  response \<open>r\<close>, \<open>Returned None\<close> when control leaves the block for line 87, \<open>Raised\<close>
  when a cache operation raises. The default bucket is built before \<^verbatim>\<open>cache.get\<close> is
  called, and every \<^verbatim>\<open>timezone.now()\<close> is a reading of its own.
\<close>

definition rate_limit :: "'c cache_ops \<Rightarrow> request \<Rightarrow> 'c world \<Rightarrow> response option outcome \<times> 'c world" where
  "rate_limit ops request w =
     (let ip = get_client_ip request;
          key = SCOPE_PREFIX @ ip;
          (t0, w0) = timezone_now w;
          (r, w1) = cache_get ops key \<lparr>count = 0, reset_at = t0 + WINDOW_SECONDS\<rparr> w0
      in case r of
           Raised e \<Rightarrow> (Raised e, w1)
         | Returned b \<Rightarrow>
             let (t2, w2) = timezone_now w1;
                 (b1, w3) = (if t2 \<ge> reset_at b
                             then let (t3, w3) = timezone_now w2
                                  in (\<lparr>count = 0, reset_at = t3 + WINDOW_SECONDS\<rparr>, w3)
                             else (b, w2));
                 b2 = b1\<lparr>count := count b1 + 1\<rparr>
             in if count b2 > MAX_MESSAGES
                then (case cache_set ops key b2 WINDOW_SECONDS w3 of
                        (Raised e, w4) \<Rightarrow> (Raised e, w4)
                      | (Returned _, w4) \<Rightarrow>
                          (Returned (Some (HttpResponseForbidden ''Rate limit exceeded: max 5 messages per minute.'')), w4))
                else (case cache_set ops key b2 WINDOW_SECONDS w3 of
                        (Raised e, w4) \<Rightarrow> (Raised e, w4)
                      | (Returned _, w4) \<Rightarrow> (Returned None, w4)))"

definition OffensiveLanguage_call :: "'c cache_ops \<Rightarrow> 'c handler \<Rightarrow> 'c handler" where
  "OffensiveLanguage_call ops get_response request w =
     (if req_method request = ''POST'' \<and> startswith (path request) ''/chats''
      then (case rate_limit ops request w of
              (Raised e, w') \<Rightarrow> (Raised e, w')
            | (Returned (Some r), w') \<Rightarrow> (Returned r, w')
            | (Returned None, w') \<Rightarrow> get_response request w')
      else get_response request w)"

subsection \<open>\<^verbatim>\<open>RolepermissionMiddleware\<close>\<close>

definition PROTECTED_PREFIXES :: "string list" where
  "PROTECTED_PREFIXES = [''/chats/admin'', ''/chats/moderate'']"

definition Rolepermission_call :: "'c handler \<Rightarrow> 'c handler" where
  "Rolepermission_call get_response request w =
     (if list_ex (startswith (path request)) PROTECTED_PREFIXES
      then let is_allowed =
                 (case user request of
                    None \<Rightarrow> False
                  | Some u \<Rightarrow>
                      is_authenticated u
                      \<and> (is_superuser u \<or> filter (\<lambda>name. name \<in> set [''admin'', ''moderator'']) (groups u) \<noteq> []))
           in if \<not> is_allowed
              then (Returned (HttpResponseForbidden ''Forbidden: admin/moderator role required.''), w)
              else get_response request w
      else get_response request w)"

subsection \<open>The chain of \<^verbatim>\<open>settings.MIDDLEWARE\<close>\<close>

text \<open>The four middleware in the order of the list; \<open>view\<close> is everything after them.\<close>

definition MIDDLEWARE :: "calendar \<Rightarrow> 'c cache_ops \<Rightarrow> 'c handler \<Rightarrow> 'c handler" where
  "MIDDLEWARE cal ops view =
     RequestLogging_call cal
       (RestrictAccessByTime_call cal
         (OffensiveLanguage_call ops
           (Rolepermission_call view)))"

section \<open>Notions used in the statements\<close>

text \<open>Line 75, the cache key of the client that sent the request.\<close>

definition client_key :: "request \<Rightarrow> string" where
  "client_key request = SCOPE_PREFIX @ get_client_ip request"

text \<open>Line 73, the condition under which the block of the rate limiter runs.\<close>

definition rate_limited :: "request \<Rightarrow> bool" where
  "rate_limited request = (req_method request = ''POST'' \<and> startswith (path request) ''/chats'')"


text \<open>The ranges of the fields of a \<^verbatim>\<open>datetime\<close> from the year 1000 on.\<close>

definition four_digit_year :: "datetime \<Rightarrow> bool" where
  "four_digit_year d =
     (1000 \<le> year d \<and> year d \<le> 9999 \<and> 1 \<le> month d \<and> month d \<le> 12 \<and> 1 \<le> day d \<and> day d \<le> 31
      \<and> hour d \<le> 23 \<and> minute d \<le> 59 \<and> second d \<le> 59)"

definition isdigit :: "char \<Rightarrow> bool" where
  "isdigit c = (48 \<le> (of_char c :: nat) \<and> (of_char c :: nat) \<le> 57)"

text \<open>A string matches a template when it has a digit wherever the template has the
  letter \<open>D\<close> and the template's own character everywhere else.\<close>

fun matches :: "string \<Rightarrow> string \<Rightarrow> bool" where
  "matches [] [] = True"
| "matches (p # ps) (c # cs) = ((if p = CHR ''D'' then isdigit c else c = p) \<and> matches ps cs)"
| "matches _ _ = False"

text \<open>
  What holds of every entry the rate limiter has stored: its count is at least 1, its reset
  time is 60 seconds after the reading \<open>i\<close> of the clock that created its window, and its
  expiry is 60 seconds after the reading \<open>j\<close>, not earlier than \<open>i\<close>, at which it was
  written.
\<close>

definition stored_by_limiter :: "locmem world \<Rightarrow> bool" where
  "stored_by_limiter w =
     (\<forall>k v e. entry (cache w) k = Some (v, e) \<longrightarrow>
        1 \<le> count v
        \<and> (\<exists>i j. i \<le> j \<and> j < ticks w
               \<and> reset_at v = clock w i + WINDOW_SECONDS \<and> e = clock w j + WINDOW_SECONDS))"

section \<open>Sample data\<close>

text \<open>
  Concrete inputs on which the theorems below are evaluated. \<open>january_first\<close> is a
  calendar for the instants of 1 January 2024, counted in seconds from its midnight, in a
  deployment whose local zone is UTC.
\<close>

definition day_fields :: "instant \<Rightarrow> datetime" where
  "day_fields t =
     (let s = nat \<lfloor>t\<rfloor>
      in \<lparr>year = 2024, month = 1, day = 1, hour = (s div 3600) mod 24,
          minute = (s div 60) mod 60, second = s mod 60\<rparr>)"

definition january_first :: calendar where
  "january_first = \<lparr>now_fields = day_fields, localtime_fields = day_fields\<rparr>"

definition post_send :: request where
  "post_send = \<lparr>req_method = ''POST'', path = ''/chats/send'',
                 META = [''REMOTE_ADDR'' \<mapsto> ''10.0.0.1''], user = None\<rparr>"

definition get_send :: request where
  "get_send = post_send\<lparr>req_method := ''GET''\<rparr>"

definition post_other :: request where
  "post_other = post_send\<lparr>META := [''REMOTE_ADDR'' \<mapsto> ''10.0.0.2'']\<rparr>"


definition alice :: user where
  "alice = \<lparr>is_authenticated = True, username = ''alice'', is_superuser = False,
             groups = [''admin'']\<rparr>"

definition bob :: user where
  "bob = \<lparr>is_authenticated = True, username = ''bob'', is_superuser = False, groups = []\<rparr>"

definition admin_page :: "user option \<Rightarrow> request" where
  "admin_page u = \<lparr>req_method = ''GET'', path = ''/chats/admin/x'', META = Map.empty, user = u\<rparr>"

text \<open>A world with an empty local-memory cache whose clock stands at instant \<open>t\<close>.\<close>

definition still_world :: "instant \<Rightarrow> locmem world" where
  "still_world t = \<lparr>cache = [], log_sink = [], clock = (\<lambda>_. t), ticks = 0\<rparr>"

text \<open>A world with an empty local-memory cache whose clock advances one second from each
  reading to the next, starting at instant \<open>t\<close>.\<close>

definition ticking_world :: "instant \<Rightarrow> locmem world" where
  "ticking_world t = \<lparr>cache = [], log_sink = [], clock = (\<lambda>i. t + of_nat i), ticks = 0\<rparr>"

text \<open>A cache backend that cannot reach its server: both operations raise. It keeps no state.\<close>

definition unreachable_cache :: "unit cache_ops" where
  "unreachable_cache =
     \<lparr>backend_get = (\<lambda>t key dflt c. (Raised (Exception ''ConnectionError''), c)),
      backend_set = (\<lambda>t key b timeout c. (Raised (Exception ''ConnectionError''), c))\<rparr>"

text \<open>A cache backend that answers every \<open>get\<close> with the default and raises on \<open>set\<close>.\<close>

definition read_only_cache :: "unit cache_ops" where
  "read_only_cache =
     \<lparr>backend_get = (\<lambda>t key dflt c. (Returned dflt, c)),
      backend_set = (\<lambda>t key b timeout c. (Raised (Exception ''ReadOnlyError''), c))\<rparr>"

definition stateless_world :: "instant \<Rightarrow> unit world" where
  "stateless_world t = \<lparr>cache = (), log_sink = [], clock = (\<lambda>_. t), ticks = 0\<rparr>"

text \<open>A downstream handler that answers every request and touches nothing.\<close>

definition ok_view :: "'c handler" where
  "ok_view request w = (Returned \<lparr>status_code = 200, content = ''ok''\<rparr>, w)"

section \<open>The stateless gates\<close>

text \<open>
  Claim C7. The time gate lets a request through if and only if the hour of the local time
  lies in the half-open interval from 6 to 21: hours 6 and 20 are allowed, hours 21 and 5
  are not. A request in the interval goes to the next handler, any other gets the
  Forbidden response and the next handler is not called.
\<close>

theorem time_gate_half_open_interval:
  "(\<forall>h. allowed h \<longleftrightarrow> 6 \<le> h \<and> h < 21)
   \<and> allowed 6 \<and> allowed 20 \<and> \<not> allowed 21 \<and> \<not> allowed 5
   \<and> RestrictAccessByTime_call cal get_response request w =
       (if allowed (hour (localtime_fields cal (clock w (ticks w))))
        then get_response request (w\<lparr>ticks := Suc (ticks w)\<rparr>)
        else (Returned (HttpResponseForbidden ''Chat is closed. Please come back during allowed hours.''),
              w\<lparr>ticks := Suc (ticks w)\<rparr>))"
  by (simp add: allowed_def START_HOUR_def END_HOUR_def RestrictAccessByTime_call_def timezone_now_def)

theorem time_gate_half_open_interval_witness:
  "RestrictAccessByTime_call january_first ok_view post_send (still_world 75600)
     = (Returned (HttpResponseForbidden ''Chat is closed. Please come back during allowed hours.''),
        (still_world 75600)\<lparr>ticks := 1\<rparr>)
   \<and> fst (RestrictAccessByTime_call january_first ok_view post_send (still_world 21600))
     = Returned \<lparr>status_code = 200, content = ''ok''\<rparr>"
  using time_gate_half_open_interval [of january_first ok_view post_send "still_world 75600"]
    time_gate_half_open_interval [of january_first ok_view post_send "still_world 21600"]
  by (simp add: january_first_def day_fields_def still_world_def ok_view_def)

text \<open>
  Claim C8. On a path that starts with \<^verbatim>\<open>/chats/admin\<close> or \<^verbatim>\<open>/chats/moderate\<close> the role
  gate lets the request through if and only if a user is present, is authenticated, and is
  a superuser or in a group named admin or moderator; otherwise, and so whenever the user
  is missing, it answers Forbidden with the role message. On every other path it lets the
  request through.
\<close>

theorem role_gate_allows_iff_privileged:
  "Rolepermission_call get_response request w =
     (if (startswith (path request) ''/chats/admin'' \<or> startswith (path request) ''/chats/moderate'')
         \<and> \<not> (\<exists>u. user request = Some u \<and> is_authenticated u
                  \<and> (is_superuser u \<or> ''admin'' \<in> set (groups u) \<or> ''moderator'' \<in> set (groups u)))
      then (Returned (HttpResponseForbidden ''Forbidden: admin/moderator role required.''), w)
      else get_response request w)"
  by (auto simp add: Rolepermission_call_def PROTECTED_PREFIXES_def filter_empty_conv
      split: option.splits)

theorem role_gate_allows_iff_privileged_witness:
  "Rolepermission_call ok_view (admin_page (Some alice)) (still_world 0)
     = ok_view (admin_page (Some alice)) (still_world 0)
   \<and> Rolepermission_call ok_view (admin_page (Some bob)) (still_world 0)
     = (Returned (HttpResponseForbidden ''Forbidden: admin/moderator role required.''), still_world 0)
   \<and> Rolepermission_call ok_view (admin_page None) (still_world 0)
     = (Returned (HttpResponseForbidden ''Forbidden: admin/moderator role required.''), still_world 0)
   \<and> Rolepermission_call ok_view ((admin_page (Some bob))\<lparr>path := ''/chats/messages''\<rparr>) (still_world 0)
     = ok_view ((admin_page (Some bob))\<lparr>path := ''/chats/messages''\<rparr>) (still_world 0)"
  using role_gate_allows_iff_privileged [of ok_view "admin_page (Some alice)" "still_world 0"]
    role_gate_allows_iff_privileged [of ok_view "admin_page (Some bob)" "still_world 0"]
    role_gate_allows_iff_privileged [of ok_view "admin_page None" "still_world 0"]
    role_gate_allows_iff_privileged
      [of ok_view "(admin_page (Some bob))\<lparr>path := ''/chats/messages''\<rparr>" "still_world 0"]
  by (simp add: admin_page_def alice_def bob_def startswith_def)

text \<open>
  Claim C6. A request whose method is not POST, or whose path does not start with
  \<^verbatim>\<open>/chats\<close>, passes the rate-limit middleware untouched: the next handler receives the
  request with the world exactly as it was, so no count is taken and the cache is the same
  for every key.
\<close>

theorem rate_limit_scope:
  "\<not> (req_method request = ''POST'' \<and> startswith (path request) ''/chats'')
   \<Longrightarrow> OffensiveLanguage_call ops get_response request w = get_response request w"
  by (auto simp add: OffensiveLanguage_call_def)

theorem rate_limit_scope_witness:
  "\<not> (req_method get_send = ''POST'' \<and> startswith (path get_send) ''/chats'')
   \<and> OffensiveLanguage_call LocMemCache ok_view get_send (still_world 36000)
     = ok_view get_send (still_world 36000)"
proof -
  have h: "\<not> (req_method get_send = ''POST'' \<and> startswith (path get_send) ''/chats'')"
    by (simp add: get_send_def post_send_def)
  show ?thesis
    using h rate_limit_scope [OF h, of LocMemCache ok_view "still_world 36000"] by simp
qed

text \<open>
  Claim C5. When the hour read by the time gate is outside the allowed interval, the gate
  answers Forbidden with the closing message whatever its next handler is. In the chain of
  \<^verbatim>\<open>settings.MIDDLEWARE\<close> the outcome is then that of the logger followed by this
  answer alone: it does not depend on the cache backend or on the view, and the cache is
  the one the request found.
\<close>

theorem time_gate_denial_short_circuits:
  "(\<not> allowed (hour (localtime_fields cal (clock w (ticks w))))
      \<longrightarrow> RestrictAccessByTime_call cal get_response request w
          = (Returned (HttpResponseForbidden ''Chat is closed. Please come back during allowed hours.''),
             w\<lparr>ticks := Suc (ticks w)\<rparr>))
   \<and> (\<not> allowed (hour (localtime_fields cal (clock w (Suc (ticks w)))))
      \<longrightarrow> MIDDLEWARE cal ops view request w
          = RequestLogging_call cal
              (\<lambda>r u. (Returned (HttpResponseForbidden ''Chat is closed. Please come back during allowed hours.''),
                      u\<lparr>ticks := Suc (ticks u)\<rparr>)) request w
        \<and> fst (MIDDLEWARE cal ops view request w)
          = Returned (HttpResponseForbidden ''Chat is closed. Please come back during allowed hours.'')
        \<and> cache (snd (MIDDLEWARE cal ops view request w)) = cache w)"
  by (simp add: MIDDLEWARE_def RequestLogging_call_def RestrictAccessByTime_call_def
      timezone_now_def Let_def)

theorem time_gate_denial_short_circuits_witness:
  "\<not> allowed (hour (localtime_fields january_first
        (clock (still_world 79200) (Suc (ticks (still_world 79200))))))
   \<and> fst (MIDDLEWARE january_first LocMemCache ok_view post_send (still_world 79200))
     = Returned (HttpResponseForbidden ''Chat is closed. Please come back during allowed hours.'')
   \<and> cache (snd (MIDDLEWARE january_first LocMemCache ok_view post_send (still_world 79200)))
     = []"
  using time_gate_denial_short_circuits
    [of january_first "still_world 79200" ok_view post_send LocMemCache ok_view]
  by (auto simp add: january_first_def day_fields_def still_world_def allowed_def
      START_HOUR_def END_HOUR_def)

section \<open>The logger\<close>

lemma isdigit_digit_char: "d < 10 \<Longrightarrow> isdigit (digit_char d)"
  by (simp add: isdigit_def digit_char_def)

lemma digit_char_0: "digit_char 0 = CHR ''0''"
  unfolding digit_char_def by code_simp

lemma dec1: "n < 10 \<Longrightarrow> dec n = [digit_char n]"
  by (simp add: dec.simps [of n])

lemma dec2: "10 \<le> n \<Longrightarrow> n < 100 \<Longrightarrow> dec n = [digit_char (n div 10), digit_char (n mod 10)]"
  by (simp add: dec.simps [of n] dec1)

lemma dec3: "100 \<le> n \<Longrightarrow> n < 1000 \<Longrightarrow> dec n = [digit_char (n div 100), digit_char (n div 10 mod 10), digit_char (n mod 10)]"
proof -
  assume a: "100 \<le> n" "n < 1000"
  then have "10 \<le> n div 10" "n div 10 < 100" by auto
  from dec2 [OF this] a show ?thesis
    by (simp add: dec.simps [of n] div_mult2_eq [symmetric])
qed

lemma dec4: "1000 \<le> n \<Longrightarrow> n < 10000 \<Longrightarrow> dec n =
   [digit_char (n div 1000), digit_char (n div 100 mod 10), digit_char (n div 10 mod 10), digit_char (n mod 10)]"
proof -
  assume a: "1000 \<le> n" "n < 10000"
  then have "100 \<le> n div 10" "n div 10 < 1000" by auto
  from dec3 [OF this] a show ?thesis
    by (simp add: dec.simps [of n] div_mult2_eq [symmetric])
qed

lemma zfill2: "n < 100 \<Longrightarrow> zfill 2 (dec n) = [digit_char (n div 10), digit_char (n mod 10)]"
  by (cases "n < 10") (simp_all add: dec1 dec2 zfill_def digit_char_0)

lemma zfill4: "1000 \<le> n \<Longrightarrow> n < 10000 \<Longrightarrow> zfill 4 (dec n) =
   [digit_char (n div 1000), digit_char (n div 100 mod 10), digit_char (n div 10 mod 10), digit_char (n mod 10)]"
  by (simp add: dec4 zfill_def)

lemma strftime_shape: "four_digit_year d \<Longrightarrow> matches ''DDDD-DD-DD DD:DD:DD'' (strftime d)"
  by (simp add: four_digit_year_def strftime_def zfill2 zfill4 isdigit_digit_char div_less_iff_less_mult less_mult_imp_div_less)


lemma rate_limit_log_sink: "log_sink (snd (rate_limit ops request w)) = log_sink w"
  by (simp add: rate_limit_def cache_get_def cache_set_def timezone_now_def Let_def
      split: prod.splits outcome.splits)

lemma gates_log_sink:
  assumes "\<forall>r u. log_sink (snd (view r u)) = log_sink u"
  shows "log_sink (snd (RestrictAccessByTime_call cal (OffensiveLanguage_call ops (Rolepermission_call view)) request w)) = log_sink w"
proof -
  have role: "log_sink (snd (Rolepermission_call view r u)) = log_sink u" for r u
    using assms by (simp add: Rolepermission_call_def Let_def)
  have lim: "log_sink (snd (OffensiveLanguage_call ops (Rolepermission_call view) r u)) = log_sink u" for r u
    using rate_limit_log_sink [of ops r u] role
    by (auto simp add: OffensiveLanguage_call_def split: prod.splits outcome.splits option.splits)
  show ?thesis
    using lim by (simp add: RestrictAccessByTime_call_def timezone_now_def Let_def)
qed

text \<open>
  Claim C9. The logger appends exactly one line to the sink and hands the request to the
  next handler, whose answer it returns. The line is the timestamp, then
  \<^verbatim>\<open> - User: \<close>, then the username of an authenticated user and \<^verbatim>\<open>anonymous\<close> when the
  user is missing or not authenticated, then \<^verbatim>\<open> - Path: \<close> and the path. The timestamp
  has the shape \<^verbatim>\<open>DDDD-DD-DD DD:DD:DD\<close> of digits. In the chain of
  \<^verbatim>\<open>settings.MIDDLEWARE\<close>, with a view that writes nothing to the sink, the sink holds
  that one line more at the end, whichever gate answers.
\<close>

theorem logger_one_line_per_request:
  "let ts = strftime (now_fields cal (clock w (ticks w)));
       usr = (if \<exists>u. user request = Some u \<and> is_authenticated u
              then username (the (user request)) else ''anonymous'');
       line = ts @ '' - User: '' @ usr @ '' - Path: '' @ path request
   in RequestLogging_call cal get_response request w
        = get_response request (w\<lparr>ticks := Suc (ticks w), log_sink := log_sink w @ [line]\<rparr>)
      \<and> (four_digit_year (now_fields cal (clock w (ticks w))) \<longrightarrow> matches ''DDDD-DD-DD DD:DD:DD'' ts)
      \<and> ((\<forall>r u. log_sink (snd (view r u)) = log_sink u)
           \<longrightarrow> log_sink (snd (MIDDLEWARE cal ops view request w)) = log_sink w @ [line])"
proof -
  have a: "RequestLogging_call cal g request w
        = g request (w\<lparr>ticks := Suc (ticks w), log_sink := log_sink w @ [strftime (now_fields cal (clock w (ticks w))) @ '' - User: '' @ (if \<exists>u. user request = Some u \<and> is_authenticated u
              then username (the (user request)) else ''anonymous'') @ '' - Path: '' @ path request]\<rparr>)" for g
    by (auto simp add: RequestLogging_call_def timezone_now_def Let_def split: option.splits)
  show ?thesis
    unfolding Let_def MIDDLEWARE_def a
    by (auto simp add: strftime_shape gates_log_sink)
qed

theorem logger_one_line_per_request_witness: "four_digit_year (now_fields january_first (clock (still_world 36000) (ticks (still_world 36000))))
  \<and> (\<forall>r u. log_sink (snd ((ok_view :: locmem handler) r u)) = log_sink u)
  \<and> log_sink (snd (MIDDLEWARE january_first LocMemCache ok_view post_send (still_world 36000)))
    = [''2024-01-01 10:00:00 - User: anonymous - Path: /chats/send'']
  \<and> log_sink (snd (MIDDLEWARE january_first LocMemCache ok_view (admin_page (Some alice)) (still_world 79200)))
    = [''2024-01-01 22:00:00 - User: alice - Path: /chats/admin/x'']"
proof -
  have v: "\<forall>r u. log_sink (snd ((ok_view :: locmem handler) r u)) = log_sink u"
    by (simp add: ok_view_def)
  have d: "dec 2024 = ''2024''" "dec (Suc 0) = ''1''" "dec 10 = ''10''" "dec 22 = ''22''" "dec 0 = ''0''"
    by code_simp+
  show ?thesis
    using v logger_one_line_per_request [of january_first "still_world 36000" post_send ok_view ok_view LocMemCache]
      logger_one_line_per_request [of january_first "still_world 79200" "admin_page (Some alice)" ok_view ok_view LocMemCache]
    by (simp add: Let_def january_first_def still_world_def day_fields_def four_digit_year_def
        post_send_def admin_page_def alice_def strftime_def zfill_def d)
qed

section \<open>The local-memory cache\<close>

lemma entry_Nil: "entry [] k = None"
  by (simp add: entry_def)

lemma entry_delete_key: "entry (delete_key k c) k' = (if k' = k then None else entry c k')"
  by (induction c) (auto simp add: entry_def delete_key_def)

lemma length_delete_key: "length (delete_key k c) \<le> length c"
  by (simp add: delete_key_def)

lemma length_delete_key_present: "entry c k = Some x \<Longrightarrow> Suc (length (delete_key k c)) \<le> length c"
proof (induction c)
  case Nil
  then show ?case by (simp add: entry_def)
next
  case (Cons p c)
  then show ?case
    using length_delete_key [of k c]
    by (cases p) (auto simp add: entry_def delete_key_def split: if_splits)
qed

lemma entry_take: "entry (take m c) k = Some x \<Longrightarrow> entry c k = Some x"
proof (induction c arbitrary: m)
  case Nil
  then show ?case by simp
next
  case (Cons p c)
  then show ?case
    by (cases m; cases p) (auto simp add: entry_def split: if_splits)
qed

lemma entry_cull: "entry (cull c) k = Some x \<Longrightarrow> entry c k = Some x"
  using entry_take [of _ c k x]
  by (auto simp add: cull_def entry_def split: if_splits)

text \<open>What \<^verbatim>\<open>get\<close> followed by \<^verbatim>\<open>set\<close> on one key leaves in the cache.\<close>

lemma entry_set: "entry (snd (locmem_set t k b x c)) k = Some (b, t + x)"
  by (simp add: locmem_set_def entry_def Let_def)

lemma entry_get_other: "k' \<noteq> k \<Longrightarrow> entry (snd (locmem_get t k d c)) k' = entry c k'"
  using entry_delete_key [of k c k']
  by (auto simp add: locmem_get_def entry_def split: option.splits)

lemma length_get: "length (snd (locmem_get t k d c)) \<le> length c"
  using length_delete_key [of k c] length_delete_key_present [of c k]
  by (auto simp add: locmem_get_def split: option.splits)

lemma entry_set_other_sub:
  "k' \<noteq> k \<Longrightarrow> entry (snd (locmem_set t k b x c)) k' = Some y \<Longrightarrow> entry c k' = Some y"
  using entry_delete_key [of k c k'] entry_delete_key [of k "cull c" k'] entry_cull [of c k' y]
  by (auto simp add: locmem_set_def entry_def Let_def split: if_splits)

lemma entry_set_other_same:
  "length c < MAX_ENTRIES \<Longrightarrow> k' \<noteq> k \<Longrightarrow> entry (snd (locmem_set t k b x c)) k' = entry c k'"
  using entry_delete_key [of k c k']
  by (auto simp add: locmem_set_def entry_def Let_def)

lemma length_set: "length c < MAX_ENTRIES \<Longrightarrow> length (snd (locmem_set t k b x c)) \<le> Suc (length c)"
  using length_delete_key [of k c]
  by (auto simp add: locmem_set_def Let_def)

lemma fst_locmem_get:
  "fst (locmem_get t k d c)
     = Returned (case entry c k of None \<Rightarrow> d | Some (v, e) \<Rightarrow> if e \<le> t then d else v)"
  by (simp add: locmem_get_def split: option.splits)

lemma fst_locmem_set: "fst (locmem_set t k b x c) = Returned ()"
  by (simp add: locmem_set_def Let_def)

section \<open>The rate limiter on the local-memory cache\<close>

text \<open>
  The block of lines 74 to 86 in closed form. The readings of the clock are, in order: the
  default bucket of line 76, the expiry test inside \<^verbatim>\<open>cache.get\<close>, the test of line 79,
  the new window of line 80 when that test succeeds, and the expiry set by \<^verbatim>\<open>cache.set\<close>.
\<close>

lemma rate_limit_locmem:
  "rate_limit LocMemCache request w =
   (let k = client_key request; n = ticks w; ck = clock w;
        dflt = \<lparr>count = 0, reset_at = ck n + 60\<rparr>;
        hit = (case entry (cache w) k of None \<Rightarrow> False | Some (v, e) \<Rightarrow> ck (n + 1) < e);
        b = (if hit then fst (the (entry (cache w) k)) else dflt);
        fresh = (reset_at b \<le> ck (n + 2));
        b1 = (if fresh then \<lparr>count = 0, reset_at = ck (n + 3) + 60\<rparr> else b);
        n' = (if fresh then n + 4 else n + 3)
    in (Returned (if count b1 + 1 > 5
                  then Some (HttpResponseForbidden ''Rate limit exceeded: max 5 messages per minute.'')
                  else None),
        w\<lparr>ticks := n' + 1,
          cache := snd (locmem_set (ck n') k (b1\<lparr>count := count b1 + 1\<rparr>) 60
                     (snd (locmem_get (ck (n + 1)) k dflt (cache w))))\<rparr>))"
  unfolding rate_limit_def LocMemCache_def cache_get_def cache_set_def timezone_now_def
  by (auto simp add: Let_def split_beta client_key_def WINDOW_SECONDS_def MAX_MESSAGES_def
      fst_locmem_get fst_locmem_set eval_nat_numeral split: option.splits)

lemma rate_limit_cases:
  fixes w :: "locmem world"
  assumes run: "rate_limit LocMemCache request w = (d, w')"
  obtains
    (renewed) "d = Returned None" "ticks w' = ticks w + 5"
      "entry (cache w') (client_key request)
         = Some (\<lparr>count = 1, reset_at = clock w (ticks w + 3) + 60\<rparr>, clock w (ticks w + 4) + 60)"
  | (created) "d = Returned None" "ticks w' = ticks w + 4"
      "entry (cache w') (client_key request)
         = Some (\<lparr>count = 1, reset_at = clock w (ticks w) + 60\<rparr>, clock w (ticks w + 3) + 60)"
  | (continued) v e where "entry (cache w) (client_key request) = Some (v, e)"
      "clock w (ticks w + 1) < e" "\<not> reset_at v \<le> clock w (ticks w + 2)"
      "d = Returned (if count v + 1 > 5
                     then Some (HttpResponseForbidden ''Rate limit exceeded: max 5 messages per minute.'')
                     else None)"
      "ticks w' = ticks w + 4"
      "entry (cache w') (client_key request)
         = Some (v\<lparr>count := count v + 1\<rparr>, clock w (ticks w + 3) + 60)"
  using run
  by (auto simp add: rate_limit_locmem Let_def entry_set add.commute split: if_splits option.splits)

lemma rate_limit_frame:
  fixes w :: "locmem world"
  assumes run: "rate_limit LocMemCache request w = (d, w')"
  shows "clock w' = clock w" and "ticks w < ticks w'" and "log_sink w' = log_sink w"
    and "k \<noteq> client_key request \<Longrightarrow> entry (cache w') k = Some y \<Longrightarrow> entry (cache w) k = Some y"
    and "length (cache w) < MAX_ENTRIES \<Longrightarrow> k \<noteq> client_key request
           \<Longrightarrow> entry (cache w') k = entry (cache w) k"
    and "length (cache w) < MAX_ENTRIES \<Longrightarrow> length (cache w') \<le> Suc (length (cache w))"
proof -
  let ?k = "client_key request"
  let ?d = "\<lparr>count = 0, reset_at = clock w (ticks w) + 60\<rparr>"
  let ?c1 = "snd (locmem_get (clock w (ticks w + 1)) ?k ?d (cache w))"
  from run obtain t b where w': "clock w' = clock w" "ticks w < ticks w'" "log_sink w' = log_sink w"
    "cache w' = snd (locmem_set t ?k b 60 ?c1)"
    by (auto simp add: rate_limit_locmem Let_def split: if_splits)
  show "clock w' = clock w" "ticks w < ticks w'" "log_sink w' = log_sink w" by (rule w')+
  have len: "length ?c1 \<le> length (cache w)" by (rule length_get)
  show "entry (cache w') k = Some y \<Longrightarrow> entry (cache w) k = Some y" if "k \<noteq> ?k"
    using that entry_set_other_sub [of k ?k t b 60 ?c1 y] entry_get_other [of k ?k]
    by (simp add: w')
  show "entry (cache w') k = entry (cache w) k" if "length (cache w) < MAX_ENTRIES" "k \<noteq> ?k"
    using that len entry_set_other_same [of ?c1 k ?k t b 60] entry_get_other [of k ?k]
    by (simp add: w')
  show "length (cache w') \<le> Suc (length (cache w))" if "length (cache w) < MAX_ENTRIES"
    using that len length_set [of ?c1 t ?k b 60] by (simp add: w')
qed

text \<open>
  Claim C2. A rate-limited request of a client whose key is absent from the cache (never
  stored, or expired there), or whose stored bucket has a reset time that the clock has
  reached at line 79, goes to the next handler, and the bucket written back has count 1
  and a reset time 60 seconds after the reading \<open>t\<close> of the clock that created the window,
  the one of line 76 or the one of line 80. When the clock stands at \<open>now\<close> for the length
  of the request, \<open>t\<close> is \<open>now\<close>.
\<close>

theorem fresh_window_counts_one:
  fixes w :: "locmem world"
  assumes scope: "req_method request = ''POST''" "startswith (path request) ''/chats''"
    and fresh: "entry (cache w) (client_key request) = None
       \<or> (\<exists>v e. entry (cache w) (client_key request) = Some (v, e)
             \<and> (e \<le> clock w (ticks w + 1) \<or> reset_at v \<le> clock w (ticks w + 2)))"
  shows "\<exists>w' t e. OffensiveLanguage_call LocMemCache get_response request w = get_response request w'
           \<and> entry (cache w') (client_key request) = Some (\<lparr>count = 1, reset_at = t + WINDOW_SECONDS\<rparr>, e)
           \<and> (t = clock w (ticks w) \<or> t = clock w (ticks w + 3))"
proof -
  obtain d w' where run: "rate_limit LocMemCache request w = (d, w')"
    by (cases "rate_limit LocMemCache request w")
  from run show ?thesis
  proof (cases rule: rate_limit_cases)
    case renewed
    with run have "OffensiveLanguage_call LocMemCache get_response request w = get_response request w'"
      by (simp add: OffensiveLanguage_call_def scope)
    with renewed(3) show ?thesis by (auto simp add: WINDOW_SECONDS_def)
  next
    case created
    with run have "OffensiveLanguage_call LocMemCache get_response request w = get_response request w'"
      by (simp add: OffensiveLanguage_call_def scope)
    with created(3) show ?thesis by (auto simp add: WINDOW_SECONDS_def)
  next
    case (continued v e)
    with fresh show ?thesis by auto
  qed
qed

theorem fresh_window_counts_one_witness:
  "\<exists>w'. OffensiveLanguage_call LocMemCache ok_view post_send (still_world 36000) = ok_view post_send w'
     \<and> fst (the (entry (cache w') (client_key post_send))) = \<lparr>count = 1, reset_at = 36060\<rparr>"
  using fresh_window_counts_one [of post_send "still_world 36000" ok_view]
  by (auto simp add: post_send_def still_world_def startswith_def WINDOW_SECONDS_def entry_def)

section \<open>What the rate limiter stores\<close>

lemma written_entry:
  fixes w :: "locmem world"
  assumes inv: "stored_by_limiter w" and run: "rate_limit LocMemCache request w = (d, w')"
  shows "\<exists>b i. entry (cache w') (client_key request) = Some (b, clock w (ticks w' - 1) + WINDOW_SECONDS)
           \<and> 1 \<le> count b \<and> i \<le> ticks w' - 1 \<and> 0 < ticks w'
           \<and> reset_at b = clock w i + WINDOW_SECONDS"
  using run
proof (cases rule: rate_limit_cases)
  case renewed
  have "entry (cache w') (client_key request) = Some (\<lparr>count = 1, reset_at = clock w (ticks w + 3) + 60\<rparr>, clock w (ticks w' - 1) + WINDOW_SECONDS)
           \<and> 1 \<le> count \<lparr>count = 1, reset_at = clock w (ticks w + 3) + 60\<rparr> \<and> ticks w + 3 \<le> ticks w' - 1 \<and> 0 < ticks w'
           \<and> reset_at \<lparr>count = 1, reset_at = clock w (ticks w + 3) + 60\<rparr> = clock w (ticks w + 3) + WINDOW_SECONDS"
    using renewed by (simp add: WINDOW_SECONDS_def add.commute)
  then show ?thesis by blast
next
  case created
  have "entry (cache w') (client_key request) = Some (\<lparr>count = 1, reset_at = clock w (ticks w) + 60\<rparr>, clock w (ticks w' - 1) + WINDOW_SECONDS)
           \<and> 1 \<le> count \<lparr>count = 1, reset_at = clock w (ticks w) + 60\<rparr> \<and> ticks w \<le> ticks w' - 1 \<and> 0 < ticks w'
           \<and> reset_at \<lparr>count = 1, reset_at = clock w (ticks w) + 60\<rparr> = clock w (ticks w) + WINDOW_SECONDS"
    using created by (simp add: WINDOW_SECONDS_def add.commute)
  then show ?thesis by blast
next
  case (continued v e)
  from inv continued(1) obtain i j where v: "1 \<le> count v" "i \<le> j" "j < ticks w"
    "reset_at v = clock w i + WINDOW_SECONDS"
    unfolding stored_by_limiter_def by blast
  have "entry (cache w') (client_key request) = Some (v\<lparr>count := count v + 1\<rparr>, clock w (ticks w' - 1) + WINDOW_SECONDS)
           \<and> 1 \<le> count (v\<lparr>count := count v + 1\<rparr>) \<and> i \<le> ticks w' - 1 \<and> 0 < ticks w'
           \<and> reset_at (v\<lparr>count := count v + 1\<rparr>) = clock w i + WINDOW_SECONDS"
    using continued v by (simp add: WINDOW_SECONDS_def add.commute)
  then show ?thesis by blast
qed

lemma stored_by_limiter_step:
  fixes w :: "locmem world"
  assumes inv: "stored_by_limiter w" and run: "rate_limit LocMemCache request w = (d, w')"
  shows "stored_by_limiter w'"
  unfolding stored_by_limiter_def
proof (intro allI impI)
  fix k v e
  assume st: "entry (cache w') k = Some (v, e)"
  note fr = rate_limit_frame [OF run]
  show "1 \<le> count v \<and> (\<exists>i j. i \<le> j \<and> j < ticks w' \<and> reset_at v = clock w' i + WINDOW_SECONDS
          \<and> e = clock w' j + WINDOW_SECONDS)"
  proof (cases "k = client_key request")
    case True
    from written_entry [OF inv run] True st obtain i where i:
      "e = clock w (ticks w' - 1) + WINDOW_SECONDS" "1 \<le> count v" "i \<le> ticks w' - 1" "0 < ticks w'"
      "reset_at v = clock w i + WINDOW_SECONDS" by auto
    have "i \<le> ticks w' - 1 \<and> ticks w' - 1 < ticks w' \<and> reset_at v = clock w' i + WINDOW_SECONDS
          \<and> e = clock w' (ticks w' - 1) + WINDOW_SECONDS"
      using i fr(1) by simp
    then show ?thesis using i(2) by blast
  next
    case False
    from fr(4) [OF False st] have "entry (cache w) k = Some (v, e)" .
    with inv obtain i j where "1 \<le> count v" "i \<le> j" "j < ticks w"
      "reset_at v = clock w i + WINDOW_SECONDS" "e = clock w j + WINDOW_SECONDS"
      unfolding stored_by_limiter_def by blast
    then have "1 \<le> count v" and "i \<le> j \<and> j < ticks w' \<and> reset_at v = clock w' i + WINDOW_SECONDS
          \<and> e = clock w' j + WINDOW_SECONDS"
      using fr(1,2) by simp_all
    then show ?thesis by blast
  qed
qed

lemma outlive_example:
  "entry (cache (snd (rate_limit LocMemCache post_send (ticking_world 0)))) (client_key post_send)
     = Some (\<lparr>count = 1, reset_at = 60\<rparr>, 63)"
  by (simp add: rate_limit_locmem Let_def ticking_world_def entry_set) (simp add: entry_def)

text \<open>
  Claim C10. A world whose cache is empty satisfies \<open>stored_by_limiter\<close>, and the block of
  the rate limiter keeps it, whether it lets the request through or denies it. The entry
  the block writes for the client has a count of at least 1, so never 0; its reset time is
  60 seconds after a reading of the clock taken no later than the write, so strictly after
  the instant that created the window; its expiry is a full 60 seconds after the reading
  taken by the write. With a clock that never runs backwards the entry therefore expires no
  earlier than its window ends, and it can expire later: on a clock that advances one second
  per reading the first request stores a window that ends at 60 in an entry that expires
  at 63.
\<close>

theorem write_back_invariants:
  fixes w :: "locmem world"
  shows "(cache w = [] \<longrightarrow> stored_by_limiter w)
   \<and> (stored_by_limiter w \<and> rate_limit LocMemCache request w = (d, w') \<longrightarrow>
        stored_by_limiter w'
        \<and> (\<exists>b i. entry (cache w') (client_key request) = Some (b, clock w (ticks w' - 1) + WINDOW_SECONDS)
              \<and> 1 \<le> count b \<and> count b \<noteq> 0
              \<and> i \<le> ticks w' - 1 \<and> reset_at b = clock w i + WINDOW_SECONDS \<and> clock w i < reset_at b
              \<and> (mono (clock w) \<longrightarrow> reset_at b \<le> clock w (ticks w' - 1) + WINDOW_SECONDS)))
   \<and> (\<exists>(u :: locmem world) r b e. stored_by_limiter u
         \<and> entry (cache (snd (rate_limit LocMemCache r u))) (client_key r) = Some (b, e) \<and> reset_at b < e)"
proof (intro conjI impI)
  assume "cache w = []"
  then show "stored_by_limiter w" by (simp add: stored_by_limiter_def entry_def)
next
  assume a: "stored_by_limiter w \<and> rate_limit LocMemCache request w = (d, w')"
  then show "stored_by_limiter w'" using stored_by_limiter_step by blast
next
  assume a: "stored_by_limiter w \<and> rate_limit LocMemCache request w = (d, w')"
  from written_entry [of w request d w'] a obtain b i where bi:
    "entry (cache w') (client_key request) = Some (b, clock w (ticks w' - 1) + WINDOW_SECONDS)"
    "1 \<le> count b" "i \<le> ticks w' - 1" "reset_at b = clock w i + WINDOW_SECONDS" by blast
  have "count b \<noteq> 0" "clock w i < reset_at b" using bi by (simp_all add: WINDOW_SECONDS_def)
  moreover have "mono (clock w) \<longrightarrow> reset_at b \<le> clock w (ticks w' - 1) + WINDOW_SECONDS"
    using bi(3,4) by (auto dest: monoD)
  ultimately show "\<exists>b i. entry (cache w') (client_key request) = Some (b, clock w (ticks w' - 1) + WINDOW_SECONDS)
              \<and> 1 \<le> count b \<and> count b \<noteq> 0
              \<and> i \<le> ticks w' - 1 \<and> reset_at b = clock w i + WINDOW_SECONDS \<and> clock w i < reset_at b
              \<and> (mono (clock w) \<longrightarrow> reset_at b \<le> clock w (ticks w' - 1) + WINDOW_SECONDS)"
    using bi by blast
next
  have "stored_by_limiter (ticking_world 0)"
    by (simp add: stored_by_limiter_def ticking_world_def entry_def)
  moreover have "reset_at \<lparr>count = 1, reset_at = 60\<rparr> < (63 :: rat)" by simp
  ultimately show "\<exists>(u :: locmem world) r b e. stored_by_limiter u
         \<and> entry (cache (snd (rate_limit LocMemCache r u))) (client_key r) = Some (b, e) \<and> reset_at b < e"
    using outlive_example by blast
qed

theorem write_back_invariants_witness:
  "cache (ticking_world 0) = []
   \<and> stored_by_limiter (ticking_world 0)
   \<and> stored_by_limiter (snd (rate_limit LocMemCache post_send (ticking_world 0)))
   \<and> entry (cache (snd (rate_limit LocMemCache post_send (ticking_world 0)))) (client_key post_send)
     = Some (\<lparr>count = 1, reset_at = 60\<rparr>, 63)"
proof -
  let ?w = "ticking_world 0"
  let ?x = "rate_limit LocMemCache post_send ?w"
  have e: "cache ?w = []" by (simp add: ticking_world_def)
  have r: "?x = (fst ?x, snd ?x)" by simp
  note t = write_back_invariants [of ?w post_send "fst ?x" "snd ?x"]
  from t e have i: "stored_by_limiter ?w" by blast
  from t i r have "stored_by_limiter (snd ?x)" by blast
  with e i outlive_example show ?thesis by simp
qed

section \<open>Requests in one window\<close>




lemma middleware_pass:
  "\<not> rate_limited q \<Longrightarrow> OffensiveLanguage_call ops g q u = g q u"
  by (auto simp add: OffensiveLanguage_call_def rate_limited_def)













lemma limited_samples: "rate_limited post_send" "rate_limited post_other" "\<not> rate_limited get_send"
  by (simp_all add: rate_limited_def post_send_def post_other_def get_send_def startswith_def)



section \<open>Failure of the cache\<close>

text \<open>The block of lines 74 to 86 on any backend, by the outcome of its two cache operations.\<close>

lemma rate_limit_general:
  "rate_limit ops request w =
     (let k = client_key request; n = ticks w; ck = clock w
      in case backend_get ops (ck (Suc n)) k \<lparr>count = 0, reset_at = ck n + WINDOW_SECONDS\<rparr> (cache w) of
           (Raised e, c1) \<Rightarrow> (Raised e, w\<lparr>ticks := Suc (Suc n), cache := c1\<rparr>)
         | (Returned b, c1) \<Rightarrow>
             let fresh = (reset_at b \<le> ck (n + 2));
                 b1 = (if fresh then \<lparr>count = 0, reset_at = ck (n + 3) + WINDOW_SECONDS\<rparr> else b);
                 n' = (if fresh then n + 4 else n + 3);
                 b2 = b1\<lparr>count := count b1 + 1\<rparr>
             in case backend_set ops (ck n') k b2 WINDOW_SECONDS c1 of
                  (Raised e, c2) \<Rightarrow> (Raised e, w\<lparr>ticks := Suc n', cache := c2\<rparr>)
                | (Returned y, c2) \<Rightarrow>
                    (Returned (if count b2 > MAX_MESSAGES
                               then Some (HttpResponseForbidden ''Rate limit exceeded: max 5 messages per minute.'')
                               else None),
                     w\<lparr>ticks := Suc n', cache := c2\<rparr>))"
  unfolding rate_limit_def cache_get_def cache_set_def timezone_now_def
  by (auto simp add: Let_def client_key_def eval_nat_numeral split: prod.splits outcome.splits)

lemma middleware_general:
  assumes "rate_limited request"
  shows "OffensiveLanguage_call ops g request w =
     (case rate_limit ops request w of
        (Raised e, w') \<Rightarrow> (Raised e, w')
      | (Returned (Some r), w') \<Rightarrow> (Returned r, w')
      | (Returned None, w') \<Rightarrow> g request w')"
  using assms by (simp add: OffensiveLanguage_call_def rate_limited_def)

lemma middleware_returns:
  assumes get: "\<forall>t k d c. \<exists>b. fst (backend_get ops t k d c) = Returned b"
    and set: "\<forall>t k b x c. \<exists>y. fst (backend_set ops t k b x c) = Returned y"
    and g: "\<forall>r v. \<exists>x. fst (g r v) = Returned x"
  shows "\<exists>x. fst (OffensiveLanguage_call ops g request w) = Returned x"
proof (cases "rate_limited request")
  case False
  then show ?thesis using g by (simp add: middleware_pass)
next
  case True
  have G: "\<exists>b c1. backend_get ops t k d c = (Returned b, c1)" for t k d c
    using get [rule_format, of t k d c] by (cases "backend_get ops t k d c") auto
  have S: "\<exists>y c2. backend_set ops t k b x c = (Returned y, c2)" for t k b x c
    using set [rule_format, of t k b x c] by (cases "backend_set ops t k b x c") auto
  obtain b c1 where gb: "backend_get ops (clock w (Suc (ticks w))) (client_key request)
      \<lparr>count = 0, reset_at = clock w (ticks w) + WINDOW_SECONDS\<rparr> (cache w) = (Returned b, c1)"
    using G by blast
  let ?fresh = "reset_at b \<le> clock w (ticks w + 2)"
  let ?b1 = "if ?fresh then \<lparr>count = 0, reset_at = clock w (ticks w + 3) + WINDOW_SECONDS\<rparr> else b"
  let ?n' = "if ?fresh then ticks w + 4 else ticks w + 3"
  obtain y c2 where sb: "backend_set ops (clock w ?n') (client_key request)
      (?b1\<lparr>count := count ?b1 + 1\<rparr>) WINDOW_SECONDS c1 = (Returned y, c2)"
    using S by blast
  have "rate_limit ops request w =
      (Returned (if count (?b1\<lparr>count := count ?b1 + 1\<rparr>) > MAX_MESSAGES
                 then Some (HttpResponseForbidden ''Rate limit exceeded: max 5 messages per minute.'')
                 else None),
       w\<lparr>ticks := Suc ?n', cache := c2\<rparr>)"
    using gb sb by (simp add: rate_limit_general Let_def)
  then show ?thesis
    using g by (simp add: middleware_general [OF True])
qed

lemma chain_returns:
  assumes get: "\<forall>t k d c. \<exists>b. fst (backend_get ops t k d c) = Returned b"
    and set: "\<forall>t k b x c. \<exists>y. fst (backend_set ops t k b x c) = Returned y"
    and v: "\<forall>r v. \<exists>x. fst (view r v) = Returned x"
  shows "\<exists>x. fst (MIDDLEWARE cal ops view request w) = Returned x"
proof -
  have role: "\<forall>r v. \<exists>x. fst (Rolepermission_call view r v) = Returned x"
    using v by (simp add: Rolepermission_call_def Let_def)
  have lim: "\<forall>r v. \<exists>x. fst (OffensiveLanguage_call ops (Rolepermission_call view) r v) = Returned x"
    using middleware_returns [OF get set role] by blast
  have gate: "\<forall>r v. \<exists>x. fst (RestrictAccessByTime_call cal
      (OffensiveLanguage_call ops (Rolepermission_call view)) r v) = Returned x"
    using lim by (simp add: RestrictAccessByTime_call_def timezone_now_def Let_def)
  show ?thesis
    using gate by (simp add: MIDDLEWARE_def RequestLogging_call_def timezone_now_def Let_def)
qed

lemma locmem_ops_return:
  "\<forall>t k d c. \<exists>b. fst (backend_get LocMemCache t k d c) = Returned b"
  "\<forall>t k b x c. \<exists>y. fst (backend_set LocMemCache t k b x c) = Returned y"
  by (simp_all add: LocMemCache_def fst_locmem_get fst_locmem_set)

text \<open>
  Claim C4, as amended. The middleware has no handler for a failure of the cache. For a
  rate-limited request, when the \<^verbatim>\<open>cache.get\<close> of line 76 raises, the middleware raises
  the same exception, the next handler is not called and no response is returned; when
  \<^verbatim>\<open>cache.get\<close> returns and the \<^verbatim>\<open>cache.set\<close> of line 84 or 86 raises, the middleware
  raises that exception in the same way. When both calls return, the middleware answers
  the Forbidden response or what the next handler answers. So with any cache backend whose
  operations return and a downstream handler that returns, the rate-limit middleware and
  the whole chain return a response; the local-memory cache is such a backend.

  As the claim states it, a failing store would let the request through. With a cache
  whose operations raise, the request is not let through: the outcome is the exception.
\<close>

theorem store_failure_propagates:
  fixes w :: "'c world" and u :: "locmem world"
  shows "(rate_limited request \<longrightarrow>
      (let k = client_key request; n = ticks w; ck = clock w;
           dflt = \<lparr>count = 0, reset_at = ck n + WINDOW_SECONDS\<rparr>
       in (\<forall>e c1. backend_get ops (ck (Suc n)) k dflt (cache w) = (Raised e, c1)
             \<longrightarrow> OffensiveLanguage_call ops get_response request w
                 = (Raised e, w\<lparr>ticks := Suc (Suc n), cache := c1\<rparr>))
        \<and> (\<forall>b c1. backend_get ops (ck (Suc n)) k dflt (cache w) = (Returned b, c1)
             \<longrightarrow> (let fresh = (reset_at b \<le> ck (n + 2));
                      b1 = (if fresh then \<lparr>count = 0, reset_at = ck (n + 3) + WINDOW_SECONDS\<rparr> else b);
                      n' = (if fresh then n + 4 else n + 3);
                      b2 = b1\<lparr>count := count b1 + 1\<rparr>
                  in (\<forall>e c2. backend_set ops (ck n') k b2 WINDOW_SECONDS c1 = (Raised e, c2)
                        \<longrightarrow> OffensiveLanguage_call ops get_response request w
                            = (Raised e, w\<lparr>ticks := Suc n', cache := c2\<rparr>))
                   \<and> (\<forall>y c2. backend_set ops (ck n') k b2 WINDOW_SECONDS c1 = (Returned y, c2)
                        \<longrightarrow> OffensiveLanguage_call ops get_response request w
                            = (if count b2 > MAX_MESSAGES
                               then (Returned (HttpResponseForbidden ''Rate limit exceeded: max 5 messages per minute.''),
                                     w\<lparr>ticks := Suc n', cache := c2\<rparr>)
                               else get_response request (w\<lparr>ticks := Suc n', cache := c2\<rparr>)))))))
   \<and> ((\<forall>t k d c. \<exists>b. fst (backend_get ops t k d c) = Returned b)
         \<and> (\<forall>t k b x c. \<exists>y. fst (backend_set ops t k b x c) = Returned y)
         \<and> (\<forall>r v. \<exists>x. fst (view r v) = Returned x)
        \<longrightarrow> (\<exists>x. fst (OffensiveLanguage_call ops view request w) = Returned x)
          \<and> (\<exists>x. fst (MIDDLEWARE cal ops view request w) = Returned x))
   \<and> ((\<forall>r v. \<exists>x. fst (locview r v) = Returned x)
        \<longrightarrow> (\<exists>x. fst (OffensiveLanguage_call LocMemCache locview request u) = Returned x)
          \<and> (\<exists>x. fst (MIDDLEWARE cal LocMemCache locview request u) = Returned x))"
proof (intro conjI impI)
  assume lim: "rate_limited request"
  show "let k = client_key request; n = ticks w; ck = clock w;
           dflt = \<lparr>count = 0, reset_at = ck n + WINDOW_SECONDS\<rparr>
       in (\<forall>e c1. backend_get ops (ck (Suc n)) k dflt (cache w) = (Raised e, c1)
             \<longrightarrow> OffensiveLanguage_call ops get_response request w
                 = (Raised e, w\<lparr>ticks := Suc (Suc n), cache := c1\<rparr>))
        \<and> (\<forall>b c1. backend_get ops (ck (Suc n)) k dflt (cache w) = (Returned b, c1)
             \<longrightarrow> (let fresh = (reset_at b \<le> ck (n + 2));
                      b1 = (if fresh then \<lparr>count = 0, reset_at = ck (n + 3) + WINDOW_SECONDS\<rparr> else b);
                      n' = (if fresh then n + 4 else n + 3);
                      b2 = b1\<lparr>count := count b1 + 1\<rparr>
                  in (\<forall>e c2. backend_set ops (ck n') k b2 WINDOW_SECONDS c1 = (Raised e, c2)
                        \<longrightarrow> OffensiveLanguage_call ops get_response request w
                            = (Raised e, w\<lparr>ticks := Suc n', cache := c2\<rparr>))
                   \<and> (\<forall>y c2. backend_set ops (ck n') k b2 WINDOW_SECONDS c1 = (Returned y, c2)
                        \<longrightarrow> OffensiveLanguage_call ops get_response request w
                            = (if count b2 > MAX_MESSAGES
                               then (Returned (HttpResponseForbidden ''Rate limit exceeded: max 5 messages per minute.''),
                                     w\<lparr>ticks := Suc n', cache := c2\<rparr>)
                               else get_response request (w\<lparr>ticks := Suc n', cache := c2\<rparr>)))))"
    by (simp add: Let_def middleware_general [OF lim] rate_limit_general)
next
  assume a: "(\<forall>t k d c. \<exists>b. fst (backend_get ops t k d c) = Returned b)
         \<and> (\<forall>t k b x c. \<exists>y. fst (backend_set ops t k b x c) = Returned y)
         \<and> (\<forall>r v. \<exists>x. fst (view r v) = Returned x)"
  then show "\<exists>x. fst (OffensiveLanguage_call ops view request w) = Returned x"
    using middleware_returns [of ops view request w] by blast
next
  assume a: "(\<forall>t k d c. \<exists>b. fst (backend_get ops t k d c) = Returned b)
         \<and> (\<forall>t k b x c. \<exists>y. fst (backend_set ops t k b x c) = Returned y)
         \<and> (\<forall>r v. \<exists>x. fst (view r v) = Returned x)"
  then show "\<exists>x. fst (MIDDLEWARE cal ops view request w) = Returned x"
    using chain_returns [of ops view cal request w] by blast
next
  assume "\<forall>r v. \<exists>x. fst (locview r v) = Returned x"
  then show "\<exists>x. fst (OffensiveLanguage_call LocMemCache locview request u) = Returned x"
    by (rule middleware_returns [OF locmem_ops_return])
next
  assume "\<forall>r v. \<exists>x. fst (locview r v) = Returned x"
  then show "\<exists>x. fst (MIDDLEWARE cal LocMemCache locview request u) = Returned x"
    by (rule chain_returns [OF locmem_ops_return])
qed

theorem store_failure_propagates_witness:
  "rate_limited post_send
   \<and> OffensiveLanguage_call unreachable_cache ok_view post_send (stateless_world 36000)
       = (Raised (Exception ''ConnectionError''), (stateless_world 36000)\<lparr>ticks := 2\<rparr>)
   \<and> OffensiveLanguage_call read_only_cache ok_view post_send (stateless_world 36000)
       = (Raised (Exception ''ReadOnlyError''), (stateless_world 36000)\<lparr>ticks := 4\<rparr>)
   \<and> fst (MIDDLEWARE january_first LocMemCache ok_view post_send (still_world 36000))
       = Returned \<lparr>status_code = 200, content = ''ok''\<rparr>"
proof -
  note lim = limited_samples(1)
  note t1 = store_failure_propagates [where request = post_send and ops = unreachable_cache
      and w = "stateless_world 36000" and get_response = ok_view, THEN conjunct1, rule_format, OF lim]
  note t2 = store_failure_propagates [where request = post_send and ops = read_only_cache
      and w = "stateless_world 36000" and get_response = ok_view, THEN conjunct1, rule_format, OF lim]
  have a: "OffensiveLanguage_call unreachable_cache ok_view post_send (stateless_world 36000)
       = (Raised (Exception ''ConnectionError''), (stateless_world 36000)\<lparr>ticks := 2\<rparr>)"
    using t1 by (simp add: Let_def unreachable_cache_def stateless_world_def numeral_2_eq_2)
  have b: "OffensiveLanguage_call read_only_cache ok_view post_send (stateless_world 36000)
       = (Raised (Exception ''ReadOnlyError''), (stateless_world 36000)\<lparr>ticks := 4\<rparr>)"
    using t2
    by (simp add: Let_def read_only_cache_def stateless_world_def WINDOW_SECONDS_def eval_nat_numeral)
  have c: "fst (MIDDLEWARE january_first LocMemCache ok_view post_send (still_world 36000))
       = Returned \<lparr>status_code = 200, content = ''ok''\<rparr>"
    by (simp add: MIDDLEWARE_def RequestLogging_call_def RestrictAccessByTime_call_def
        OffensiveLanguage_call_def Rolepermission_call_def PROTECTED_PREFIXES_def
        rate_limit_locmem timezone_now_def Let_def january_first_def day_fields_def
        still_world_def ok_view_def post_send_def startswith_def allowed_def START_HOUR_def
        END_HOUR_def entry_Nil)
  from lim a b c show ?thesis by simp
qed

text \<open>
  The rate-limit middleware on a cache that cannot be reached, with a next handler that
  would answer 200: the outcome is the exception of the backend, not a response.
\<close>

theorem store_failure_not_allowed:
  "fst (OffensiveLanguage_call unreachable_cache ok_view post_send (stateless_world 36000))
     = Raised (Exception ''ConnectionError'')"
  by (simp add: OffensiveLanguage_call_def rate_limit_def cache_get_def timezone_now_def
      unreachable_cache_def post_send_def startswith_def stateless_world_def Let_def)

end
